theory Spec2Isabelle
  imports Main "HOL-Library.AList" "HOL-Library.Char_ord" "HOL-Library.List_Lexorder"
begin

section \<open>Strings and the library functions the program calls\<close>

text \<open>
  A Go string is a sequence of bytes; \<open>string\<close> (a list of 8-bit characters) is the
  same thing. Go compares strings byte by byte, a proper prefix being smaller: that is
  the lexicographic order on \<open>char list\<close> over the order of the byte values.

  \<open>strings.ToLower\<close> is a function of the Go library, aware of Unicode. The engine
  only applies it, so every function below that reaches it takes it as its first
  argument, written \<open>ToLower\<close>: a function from strings to strings about which nothing
  is assumed. What is proved for every \<open>ToLower\<close> holds for the library's.

  To run the engine on concrete inputs a lower-casing function is needed.
  \<open>asciiToLower\<close> moves the bytes \<open>A\<close> .. \<open>Z\<close> to \<open>a\<close> .. \<open>z\<close> and leaves
  every other byte: on a string of ASCII bytes this is what \<open>strings.ToLower\<close>
  returns. All concrete inputs below are ASCII.
\<close>

definition lowerByte :: "char \<Rightarrow> char" where
  "lowerByte c =
     (if CHR ''A'' \<le> c \<and> c \<le> CHR ''Z'' then char_of (of_char c + (32::nat)) else c)"

definition asciiToLower :: "string \<Rightarrow> string" where
  "asciiToLower s = map lowerByte s"

text \<open>
  \<open>strings.Index(s, sep)\<close>: the first position at which \<open>sep\<close> starts in \<open>s\<close>,
  \<open>None\<close> where Go returns \<open>-1\<close>.
\<close>

fun Index :: "string \<Rightarrow> string \<Rightarrow> nat option" where
  "Index [] sep = (if sep = [] then Some 0 else None)"
| "Index (c # s) sep =
     (if take (length sep) (c # s) = sep then Some 0
      else map_option Suc (Index s sep))"

text \<open>
  \<open>strings.SplitN(s, sep, 2)\<close> for a non-empty separator: at most one cut, at the first
  occurrence of the separator; a string without the separator comes back alone.
\<close>

definition SplitN2 :: "string \<Rightarrow> string \<Rightarrow> string list" where
  "SplitN2 s sep =
     (case Index s sep of
        None \<Rightarrow> [s]
      | Some m \<Rightarrow> [take m s, drop (m + length sep) s])"

text \<open>\<open>slices.Sorted\<close> collects a sequence and sorts it in ascending order.\<close>

definition Sorted :: "string list \<Rightarrow> string list" where
  "Sorted xs = sort xs"

text \<open>\<open>slices.Contains\<close>.\<close>

definition Contains :: "string list \<Rightarrow> string \<Rightarrow> bool" where
  "Contains xs s = (s \<in> set xs)"

text \<open>
  \<open>slices.Compare\<close>: the first differing position decides; when one slice is a prefix
  of the other, the shorter is smaller.
\<close>

fun Compare :: "string list \<Rightarrow> string list \<Rightarrow> int" where
  "Compare [] [] = 0"
| "Compare [] (y # ys) = - 1"
| "Compare (x # xs) [] = 1"
| "Compare (x # xs) (y # ys) =
     (if x < y then - 1 else if y < x then 1 else Compare xs ys)"


section \<open>The data model\<close>

text \<open>\<open>gh.GitHubItem\<close> (package gh).\<close>

record GitHubItem =
  Title :: string
  HTMLURL :: string
  APIURL :: string
  K :: string
  Labels :: "string list"
  Repo :: string
  ID :: string
  Milestone :: string

text \<open>
  \<open>omnifocus.Task\<close>. Its field \<open>ID\<close> is called \<open>TaskID\<close> here, the record above
  having taken the name.
\<close>

record Task =
  TaskID :: string
  Name :: string
  Completed :: bool
  Tags :: "string list"

text \<open>
  \<open>GitHubItem.GetTags\<close>: the labels, then the repository, then the milestone tag when
  there is a milestone. An \<open>iter.Seq[string]\<close> over a slice is the list of its
  elements.
\<close>

definition GitHubItem_GetTags :: "GitHubItem \<Rightarrow> string list" where
  "GitHubItem_GetTags item =
     (if Milestone item \<noteq> ''''
      then Labels item @ [Repo item, ''milestone: '' @ Milestone item]
      else Labels item @ [Repo item])"

definition GitHubItem_Key :: "GitHubItem \<Rightarrow> string" where
  "GitHubItem_Key item = K item"

text \<open>\<open>Task.Key\<close>: element 0 of \<open>strings.SplitN(t.Name, " ", 2)\<close>.\<close>

definition Task_Key :: "Task \<Rightarrow> string" where
  "Task_Key t = SplitN2 (Name t) '' '' ! 0"

definition Task_GetTags :: "Task \<Rightarrow> string list" where
  "Task_GetTags t = Tags t"

text \<open>
  The interface \<open>delta.Keyed\<close>. The two types of the program that implement it are
  \<open>GitHubItem\<close> and \<open>Task\<close>, so a value of the interface is one or the other, and a
  method call dispatches on which.
\<close>

datatype Keyed = KGitHubItem GitHubItem | KTask Task

fun Key :: "Keyed \<Rightarrow> string" where
  "Key (KGitHubItem item) = GitHubItem_Key item"
| "Key (KTask t) = Task_Key t"

fun GetTags :: "Keyed \<Rightarrow> string list" where
  "GetTags (KGitHubItem item) = GitHubItem_GetTags item"
| "GetTags (KTask t) = Task_GetTags t"

datatype OperationType = Add | Remove

record Operation =
  Item :: Keyed
  Type :: OperationType

text \<open>
  A Go \<open>map[string]T\<close> is an association list whose keys are pairwise different:
  \<open>m[k]\<close> is \<open>map_of m k\<close>, the assignment \<open>m[k] = v\<close> is \<open>AList.update k v m\<close>,
  and the order of the list is the order in which one \<open>range\<close> over the map visits its
  entries. Go leaves that order open; a statement about every such list is a statement
  about every map and every order of visit.
\<close>

type_synonym 'a gomap = "(string \<times> 'a) list"

definition wf_map :: "'a gomap \<Rightarrow> bool" where
  "wf_map m = distinct (map fst m)"

text \<open>Every entry sits under the key its element reports.\<close>

definition keyed :: "Keyed gomap \<Rightarrow> bool" where
  "keyed m = list_all (\<lambda>kv. Key (snd kv) = fst kv) m"


section \<open>The keyed-collection builder\<close>

text \<open>\<open>toSet\<close> (cmd/github2omnifocus/main.go): one assignment per element, in order.\<close>

definition toSet :: "Keyed list \<Rightarrow> Keyed gomap" where
  "toSet l = foldl (\<lambda>r elem. AList.update (Key elem) elem r) [] l"


section \<open>The reconciliation engine\<close>

text \<open>\<open>toLower\<close> (package delta): appends the lower-cased element, one by one.\<close>

definition toLower :: "(string \<Rightarrow> string) \<Rightarrow> string list \<Rightarrow> string list" where
  "toLower ToLower s = foldl (\<lambda>lowered v. lowered @ [ToLower v]) [] s"

text \<open>
  \<open>lower\<close> and \<open>deleteFunc\<close> pull the elements of a sequence one at a time until
  it is exhausted; the sequences they are given range over a slice, so the loop is a
  recursion over the elements left. The consumer, \<open>slices.Sorted\<close>, takes every
  element, so \<open>yield\<close> never asks to stop.
\<close>

fun lower :: "(string \<Rightarrow> string) \<Rightarrow> string list \<Rightarrow> string list" where
  "lower ToLower [] = []"
| "lower ToLower (v # itr) = ToLower v # lower ToLower itr"

fun deleteFunc :: "string list \<Rightarrow> (string \<Rightarrow> bool) \<Rightarrow> string list" where
  "deleteFunc [] del = []"
| "deleteFunc (v # itr) del =
     (if \<not> del v then v # deleteFunc itr del else deleteFunc itr del)"

text \<open>
  The two sorted tag sequences that \<open>Delta\<close> compares for a key held by both maps;
  \<open>ignoreTags\<close> is the list already lower-cased.
\<close>

definition cTags :: "(string \<Rightarrow> string) \<Rightarrow> string list \<Rightarrow> Keyed \<Rightarrow> string list" where
  "cTags ToLower ignoreTags c =
     Sorted (deleteFunc (lower ToLower (GetTags c)) (\<lambda>s. Contains ignoreTags s))"

definition vTags :: "(string \<Rightarrow> string) \<Rightarrow> Keyed \<Rightarrow> string list" where
  "vTags ToLower v = Sorted (lower ToLower (GetTags v))"

text \<open>The body of the loop over \<open>desired\<close>, for one entry.\<close>

definition desiredStep ::
  "(string \<Rightarrow> string) \<Rightarrow> Keyed gomap \<Rightarrow> string list \<Rightarrow> Operation list
     \<Rightarrow> string \<times> Keyed \<Rightarrow> Operation list" where
  "desiredStep ToLower current ignoreTags ops kv =
     (case kv of (k, v) \<Rightarrow>
        (case map_of current k of
           None \<Rightarrow> ops @ [\<lparr>Item = v, Type = Add\<rparr>]
         | Some c \<Rightarrow>
             (if Compare (vTags ToLower v) (cTags ToLower ignoreTags c) \<noteq> 0
              then ops @ [\<lparr>Item = c, Type = Remove\<rparr>, \<lparr>Item = v, Type = Add\<rparr>]
              else ops)))"

text \<open>The body of the loop over \<open>current\<close>, for one entry.\<close>

definition currentStep ::
  "Keyed gomap \<Rightarrow> Operation list \<Rightarrow> string \<times> Keyed \<Rightarrow> Operation list" where
  "currentStep desired ops kv =
     (case kv of (k, v) \<Rightarrow>
        (case map_of desired k of
           None \<Rightarrow> ops @ [\<lparr>Item = v, Type = Remove\<rparr>]
         | Some _ \<Rightarrow> ops))"

text \<open>
  \<open>Delta\<close> (the version that takes \<open>ignoreTags\<close>). Its first argument here is the
  library's lower-casing function; the others are those of the source.
\<close>

definition Delta ::
  "(string \<Rightarrow> string) \<Rightarrow> Keyed gomap \<Rightarrow> Keyed gomap \<Rightarrow> string list \<Rightarrow> Operation list" where
  "Delta ToLower desired current ignoreTags =
     (let ops = [];
          ignoreTags = toLower ToLower ignoreTags;
          ops = foldl (desiredStep ToLower current ignoreTags) ops desired;
          ops = foldl (currentStep desired) ops current
      in ops)"


section \<open>Notions used to state the properties\<close>

text \<open>
  The normalized tags of the specification, written with the list functions of HOL and
  not with the engine's own: the desired side lower-cases every tag and sorts; the
  current side lower-cases every tag, drops those equal to the lower-cased form of an
  entry of the ignore list, and sorts. Repeated tags stay.
\<close>

abbreviation desiredNorm :: "(string \<Rightarrow> string) \<Rightarrow> Keyed \<Rightarrow> string list" where
  "desiredNorm ToLower v \<equiv> sort (map ToLower (GetTags v))"

abbreviation currentNorm :: "(string \<Rightarrow> string) \<Rightarrow> string list \<Rightarrow> Keyed \<Rightarrow> string list" where
  "currentNorm ToLower ignoreTags c \<equiv>
     sort (filter (\<lambda>s. s \<notin> ToLower ` set ignoreTags) (map ToLower (GetTags c)))"

text \<open>The operations of a list whose payload reports the key \<open>k\<close>, in their order.\<close>

definition opsFor :: "string \<Rightarrow> Operation list \<Rightarrow> Operation list" where
  "opsFor k ops = filter (\<lambda>op. Key (Item op) = k) ops"

text \<open>
  Applying operations to a keyed collection, in the words of the convergence property
  (the repository itself performs them against Omnifocus): an \<open>Add\<close> puts its item
  under the item's key, a \<open>Remove\<close> deletes the key of its task. The operations are
  applied in the order of the list, so the \<open>Remove\<close> of a changed key comes before
  its \<open>Add\<close>.
\<close>

definition applyOp :: "Keyed gomap \<Rightarrow> Operation \<Rightarrow> Keyed gomap" where
  "applyOp m op =
     (case Type op of
        Add \<Rightarrow> AList.update (Key (Item op)) (Item op) m
      | Remove \<Rightarrow> AList.delete (Key (Item op)) m)"

definition applyOps :: "Keyed gomap \<Rightarrow> Operation list \<Rightarrow> Keyed gomap" where
  "applyOps m ops = foldl applyOp m ops"


section \<open>Concrete inputs\<close>

text \<open>The task of the test \<open>TestTaskKey\<close>, and a task whose name has no space.\<close>

definition testTask :: Task where
  "testTask = \<lparr>TaskID = ''foo'', Name = ''rhyshort/github-to-omnifocus#3 foo bar foo'',
     Completed = False, Tags = []\<rparr>"

definition bareTask :: Task where
  "bareTask = \<lparr>TaskID = ''bar'', Name = ''inbox'', Completed = False, Tags = []\<rparr>"

text \<open>Items and tasks of the repository \<open>a/b\<close>.\<close>

definition itemA :: GitHubItem where
  "itemA = \<lparr>Title = ''Fix it'', HTMLURL = '''', APIURL = '''', K = ''a/b#1'',
     Labels = [''Bug''], Repo = ''a/b'', ID = ''1'', Milestone = ''''\<rparr>"

definition itemUrgent :: GitHubItem where
  "itemUrgent = \<lparr>Title = ''Fix it'', HTMLURL = '''', APIURL = '''', K = ''a/b#1'',
     Labels = [''urgent''], Repo = ''a/b'', ID = ''1'', Milestone = ''''\<rparr>"

definition itemTwice :: GitHubItem where
  "itemTwice = \<lparr>Title = ''Fix it'', HTMLURL = '''', APIURL = '''', K = ''a/b#1'',
     Labels = [''bug'', ''Bug''], Repo = ''a/b'', ID = ''1'', Milestone = ''''\<rparr>"

definition itemIgnored :: GitHubItem where
  "itemIgnored = \<lparr>Title = ''Fix it'', HTMLURL = '''', APIURL = '''', K = ''a/b#1'',
     Labels = [''bug'', ''Assigned''], Repo = ''a/b'', ID = ''1'', Milestone = ''''\<rparr>"

definition itemMilestone :: GitHubItem where
  "itemMilestone = \<lparr>Title = ''Ship'', HTMLURL = '''', APIURL = '''', K = ''a/b#3'',
     Labels = [''Bug'', ''bug'', ''bug''], Repo = ''a/b'', ID = ''3'', Milestone = ''v1''\<rparr>"

definition taskA :: Task where
  "taskA = \<lparr>TaskID = ''t1'', Name = ''a/b#1 Fix it'', Completed = False,
     Tags = [''bug'', ''a/b'']\<rparr>"

definition taskAssigned :: Task where
  "taskAssigned = \<lparr>TaskID = ''t1'', Name = ''a/b#1 Fix it'', Completed = False,
     Tags = [''bug'', ''Assigned'', ''a/b'']\<rparr>"

definition taskAgain :: Task where
  "taskAgain = \<lparr>TaskID = ''t9'', Name = ''a/b#1 Again'', Completed = False,
     Tags = [''later'']\<rparr>"

definition taskB :: Task where
  "taskB = \<lparr>TaskID = ''t2'', Name = ''a/b#2 Other'', Completed = False, Tags = []\<rparr>"


section \<open>Facts about the library functions and the builder\<close>

lemma Index_single:
  "Index s [c] = (if c \<in> set s then Some (length (takeWhile (\<lambda>x. x \<noteq> c) s)) else None)"
  by (induction s) auto

lemma takeWhile_neq_id: "c \<notin> set s \<Longrightarrow> takeWhile (\<lambda>x. x \<noteq> c) s = s"
  by (induction s) auto

lemma SplitN2_single_0:
  "SplitN2 s [c] ! 0 = takeWhile (\<lambda>x. x \<noteq> c) s"
proof (cases "c \<in> set s")
  case True
  then show ?thesis
    using takeWhile_eq_take[of "\<lambda>x. x \<noteq> c" s] by (simp add: SplitN2_def Index_single)
next
  case False
  then show ?thesis by (simp add: SplitN2_def Index_single takeWhile_neq_id)
qed

text \<open>\<open>SplitN\<close> never returns an empty slice, so \<open>Task.Key\<close> reads element 0 in range.\<close>

lemma SplitN2_nonempty: "0 < length (SplitN2 s sep)"
  by (simp add: SplitN2_def split: option.splits)

lemma Task_Key_takeWhile: "Task_Key t = takeWhile (\<lambda>c. c \<noteq> CHR '' '') (Name t)"
  by (simp add: Task_Key_def SplitN2_single_0)

lemma find_append_conv:
  "find P (xs @ ys) = (case find P xs of None \<Rightarrow> find P ys | Some x \<Rightarrow> Some x)"
  by (induction xs) simp_all

lemma toSet_acc_map_of:
  "map_of (foldl (\<lambda>r elem. AList.update (Key elem) elem r) r l) k =
     (case find (\<lambda>e. Key e = k) (rev l) of Some e \<Rightarrow> Some e | None \<Rightarrow> map_of r k)"
proof (induction l arbitrary: r)
  case Nil
  then show ?case by simp
next
  case (Cons a l)
  show ?case
    by (simp add: Cons.IH find_append_conv update_conv' split: option.splits)
qed

lemma toSet_acc_distinct:
  "distinct (map fst r) \<Longrightarrow>
   distinct (map fst (foldl (\<lambda>r elem. AList.update (Key elem) elem r) r l))"
  by (induction l arbitrary: r) (simp_all add: distinct_update)

lemma toSet_acc_keys:
  "fst ` set (foldl (\<lambda>r elem. AList.update (Key elem) elem r) r l) = fst ` set r \<union> Key ` set l"
  by (induction l arbitrary: r) (auto simp add: dom_update)

lemma toSet_acc_keyed:
  "keyed r \<Longrightarrow> keyed (foldl (\<lambda>r elem. AList.update (Key elem) elem r) r l)"
proof (induction l arbitrary: r)
  case Nil
  then show ?case by simp
next
  case (Cons a l)
  have "keyed (AList.update (Key a) a r)"
    using Cons.prems by (induction r) (auto simp: keyed_def)
  then show ?case by (simp add: Cons.IH)
qed

lemma toSet_map_of: "map_of (toSet l) k = find (\<lambda>e. Key e = k) (rev l)"
  by (simp add: toSet_def toSet_acc_map_of split: option.splits)

lemma toSet_wf: "wf_map (toSet l)"
  by (simp add: toSet_def wf_map_def toSet_acc_distinct)

lemma toSet_keys: "fst ` set (toSet l) = Key ` set l"
  by (simp add: toSet_def toSet_acc_keys)

lemma toSet_keyed: "keyed (toSet l)"
  unfolding toSet_def by (rule toSet_acc_keyed) (simp add: keyed_def)

lemma toSet_length: "length (toSet l) = card (Key ` set l)"
proof -
  have "length (toSet l) = length (map fst (toSet l))" by simp
  also have "\<dots> = card (set (map fst (toSet l)))"
    using toSet_wf[of l] by (simp only: wf_map_def distinct_card)
  also have "\<dots> = card (Key ` set l)" by (simp add: toSet_keys)
  finally show ?thesis .
qed

lemma toSet_one_key:
  assumes "l \<noteq> []" "\<forall>e\<in>set l. Key e = k"
  shows "toSet l = [(k, last l)]"
proof -
  have len: "length (toSet l) = 1"
    using assms by (cases l) (auto simp: toSet_length image_constant_conv)
  have "map_of (toSet l) k = Some (last l)"
    using assms by (cases l rule: rev_cases) (simp_all add: toSet_map_of)
  with len show ?thesis
    by (cases "toSet l") (auto split: if_splits)
qed


section \<open>Facts about the two passes of Delta\<close>

lemma Compare_eq_0_iff: "Compare xs ys = 0 \<longleftrightarrow> xs = ys"
  by (induction xs ys rule: Compare.induct) auto

lemma toLower_acc: "foldl (\<lambda>lowered v. lowered @ [f v]) acc s = acc @ map f s"
  by (induction s arbitrary: acc) simp_all

lemma toLower_map: "toLower ToLower s = map ToLower s"
  by (simp add: toLower_def toLower_acc)

lemma lower_map: "lower ToLower itr = map ToLower itr"
  by (induction itr) simp_all

lemma deleteFunc_filter: "deleteFunc itr del = filter (\<lambda>v. \<not> del v) itr"
  by (induction itr) simp_all

lemma desiredStep_append:
  "desiredStep ToLower current ig ops kv = ops @ desiredStep ToLower current ig [] kv"
  by (simp add: desiredStep_def split: prod.splits option.splits)

lemma currentStep_append:
  "currentStep desired ops kv = ops @ currentStep desired [] kv"
  by (simp add: currentStep_def split: prod.splits option.splits)

lemma foldl_desiredStep:
  "foldl (desiredStep ToLower current ig) ops desired =
     ops @ concat (map (desiredStep ToLower current ig []) desired)"
proof (induction desired arbitrary: ops)
  case Nil
  then show ?case by simp
next
  case (Cons kv desired)
  show ?case
    by (simp add: Cons.IH desiredStep_append[of ToLower current ig ops kv])
qed

lemma foldl_currentStep:
  "foldl (currentStep desired) ops current =
     ops @ concat (map (currentStep desired []) current)"
proof (induction current arbitrary: ops)
  case Nil
  then show ?case by simp
next
  case (Cons kv current)
  show ?case
    by (simp add: Cons.IH currentStep_append[of desired ops kv])
qed

lemma Delta_passes:
  "Delta ToLower desired current ig =
     concat (map (desiredStep ToLower current (toLower ToLower ig) []) desired) @
     concat (map (currentStep desired []) current)"
  by (simp add: Delta_def Let_def foldl_currentStep foldl_desiredStep)

lemma opsFor_append: "opsFor k (xs @ ys) = opsFor k xs @ opsFor k ys"
  by (simp add: opsFor_def)

lemma keyed_entry: "keyed m \<Longrightarrow> (k, v) \<in> set m \<Longrightarrow> Key v = k"
  by (auto simp: keyed_def list_all_iff)

lemma keyed_map_of: "keyed m \<Longrightarrow> map_of m k = Some v \<Longrightarrow> Key v = k"
  by (auto dest: map_of_SomeD keyed_entry)

lemma keyed_Cons: "keyed (kv # m) \<longleftrightarrow> Key (snd kv) = fst kv \<and> keyed m"
  by (simp add: keyed_def)

lemma wf_map_Cons: "wf_map (kv # m) \<longleftrightarrow> fst kv \<notin> fst ` set m \<and> wf_map m"
  by (simp add: wf_map_def)

lemma opsFor_desiredStep:
  assumes "keyed current" "Key v = k'"
  shows "opsFor k (desiredStep ToLower current ig [] (k', v)) =
           (if k' = k then desiredStep ToLower current ig [] (k', v) else [])"
  using assms keyed_map_of[OF assms(1)]
  by (auto simp: desiredStep_def opsFor_def split: option.splits)

lemma opsFor_currentStep:
  assumes "Key v = k'"
  shows "opsFor k (currentStep desired [] (k', v)) =
           (if k' = k then currentStep desired [] (k', v) else [])"
  using assms
  by (auto simp: currentStep_def opsFor_def split: option.splits)

lemma opsFor_desired_pass:
  assumes "keyed current"
  shows "wf_map desired \<Longrightarrow> keyed desired \<Longrightarrow>
         opsFor k (concat (map (desiredStep ToLower current ig []) desired)) =
           (case map_of desired k of
              None \<Rightarrow> []
            | Some v \<Rightarrow> desiredStep ToLower current ig [] (k, v))"
proof (induction desired)
  case Nil
  then show ?case by (simp add: opsFor_def)
next
  case (Cons kv desired)
  obtain k' v where kv: "kv = (k', v)" by (cases kv)
  from Cons.prems have key: "Key v = k'" and fresh: "k' \<notin> fst ` set desired"
    and wf: "wf_map desired" and kd: "keyed desired"
    by (simp_all add: kv keyed_Cons wf_map_Cons)
  have rest: "opsFor k (concat (map (desiredStep ToLower current ig []) desired)) =
                (case map_of desired k of None \<Rightarrow> [] | Some v \<Rightarrow> desiredStep ToLower current ig [] (k, v))"
    using Cons.IH wf kd by simp
  have step: "opsFor k (desiredStep ToLower current ig [] (k', v)) =
                (if k' = k then desiredStep ToLower current ig [] (k', v) else [])"
    by (rule opsFor_desiredStep[OF assms key])
  show ?case
  proof (cases "k' = k")
    case True
    with fresh have "map_of desired k = None" by (simp add: map_of_eq_None_iff)
    with rest True step show ?thesis
      by (simp add: kv opsFor_append)
  next
    case False
    with rest step show ?thesis
      by (simp add: kv opsFor_append)
  qed
qed

lemma opsFor_current_pass:
  "wf_map current \<Longrightarrow> keyed current \<Longrightarrow>
   opsFor k (concat (map (currentStep desired []) current)) =
     (case map_of current k of
        None \<Rightarrow> []
      | Some c \<Rightarrow> currentStep desired [] (k, c))"
proof (induction current)
  case Nil
  then show ?case by (simp add: opsFor_def)
next
  case (Cons kv current)
  obtain k' v where kv: "kv = (k', v)" by (cases kv)
  from Cons.prems have key: "Key v = k'" and fresh: "k' \<notin> fst ` set current"
    and wf: "wf_map current" and kd: "keyed current"
    by (simp_all add: kv keyed_Cons wf_map_Cons)
  have rest: "opsFor k (concat (map (currentStep desired []) current)) =
                (case map_of current k of None \<Rightarrow> [] | Some c \<Rightarrow> currentStep desired [] (k, c))"
    using Cons.IH wf kd by simp
  have step: "opsFor k (currentStep desired [] (k', v)) =
                (if k' = k then currentStep desired [] (k', v) else [])"
    by (rule opsFor_currentStep[OF key])
  show ?case
  proof (cases "k' = k")
    case True
    with fresh have "map_of current k = None" by (simp add: map_of_eq_None_iff)
    with rest True step show ?thesis
      by (simp add: kv opsFor_append)
  next
    case False
    with rest step show ?thesis
      by (simp add: kv opsFor_append)
  qed
qed

lemma opsFor_Delta:
  assumes "wf_map desired" "keyed desired" "wf_map current" "keyed current"
  shows "opsFor k (Delta ToLower desired current ig) =
    (case map_of desired k of
       None \<Rightarrow> (case map_of current k of
                  None \<Rightarrow> []
                | Some c \<Rightarrow> [\<lparr>Item = c, Type = Remove\<rparr>])
     | Some v \<Rightarrow> (case map_of current k of
                  None \<Rightarrow> [\<lparr>Item = v, Type = Add\<rparr>]
                | Some c \<Rightarrow>
                    if vTags ToLower v \<noteq> cTags ToLower (toLower ToLower ig) c
                    then [\<lparr>Item = c, Type = Remove\<rparr>, \<lparr>Item = v, Type = Add\<rparr>]
                    else []))"
  by (simp add: Delta_passes opsFor_append
      opsFor_desired_pass[OF assms(4) assms(1) assms(2)]
      opsFor_current_pass[OF assms(3) assms(4)]
      desiredStep_def currentStep_def Compare_eq_0_iff split: option.splits)


section \<open>Facts about the operations of Delta\<close>

lemma desired_pass_empty_current:
  "concat (map (desiredStep ToLower [] ig []) desired) = map (\<lambda>kv. \<lparr>Item = snd kv, Type = Add\<rparr>) desired"
  by (induction desired) (simp_all add: desiredStep_def split: prod.splits)

lemma current_pass_empty_desired:
  "concat (map (currentStep [] []) current) = map (\<lambda>kv. \<lparr>Item = snd kv, Type = Remove\<rparr>) current"
  by (induction current) (simp_all add: currentStep_def split: prod.splits)

lemma cTags_list:
  "cTags ToLower (toLower ToLower ig) c =
     sort (filter (\<lambda>s. s \<notin> ToLower ` set ig) (map ToLower (GetTags c)))"
  by (simp add: cTags_def Sorted_def Contains_def lower_map deleteFunc_filter toLower_map)

lemma vTags_list: "vTags ToLower v = sort (map ToLower (GetTags v))"
  by (simp add: vTags_def Sorted_def lower_map)

lemma concat_map_Nil: "(\<And>x. x \<in> set xs \<Longrightarrow> f x = []) \<Longrightarrow> concat (map f xs) = []"
  by (induction xs) simp_all

lemma wf_map_lookup: "wf_map m \<Longrightarrow> (k, v) \<in> set m \<Longrightarrow> map_of m k = Some v"
  by (simp add: wf_map_def)

lemma map_of_in_keys: "k \<in> fst ` set m \<Longrightarrow> \<exists>v. map_of m k = Some v"
  by (cases "map_of m k") (simp_all add: map_of_eq_None_iff)

lemma desired_pass_length:
  "length (concat (map (desiredStep ToLower current ig []) desired)) \<le> 2 * length desired"
  by (induction desired) (auto simp: desiredStep_def split: prod.splits option.splits)

lemma current_pass_length:
  "length (concat (map (currentStep desired []) current)) \<le> length current"
  by (induction current) (auto simp: currentStep_def split: prod.splits option.splits)

lemma desiredStep_payload:
  assumes "op \<in> set (desiredStep ToLower current ig [] kv)" "kv \<in> set desired"
  shows "(Type op = Add \<and> Item op \<in> snd ` set desired)
         \<or> (Type op = Remove \<and> Item op \<in> snd ` set current)"
proof -
  obtain k v where kv: "kv = (k, v)" by (cases kv)
  from assms(2) kv have v: "v \<in> snd ` set desired" by force
  have c: "c \<in> snd ` set current" if "map_of current k = Some c" for c
    using map_of_SomeD[OF that] by force
  show ?thesis
  proof (cases "map_of current k")
    case None
    with assms(1) show ?thesis by (simp add: kv desiredStep_def v)
  next
    case (Some c')
    with assms(1) c[OF Some] show ?thesis
      by (simp add: kv desiredStep_def v split: if_splits) (metis Operation.select_convs v)
  qed
qed

lemma currentStep_payload:
  assumes "op \<in> set (currentStep desired [] kv)" "kv \<in> set current"
  shows "Type op = Remove \<and> Item op \<in> snd ` set current"
proof -
  obtain k v where kv: "kv = (k, v)" by (cases kv)
  from assms(2) kv have v: "v \<in> snd ` set current" by force
  show ?thesis
    using assms(1) by (cases "map_of desired k") (simp_all add: kv currentStep_def v)
qed

lemma Delta_payload:
  assumes "op \<in> set (Delta ToLower desired current ig)"
  shows "(Type op = Add \<and> Item op \<in> snd ` set desired)
         \<or> (Type op = Remove \<and> Item op \<in> snd ` set current)"
proof -
  from assms consider
    (d) kv where "kv \<in> set desired" "op \<in> set (desiredStep ToLower current (toLower ToLower ig) [] kv)"
  | (c) kv where "kv \<in> set current" "op \<in> set (currentStep desired [] kv)"
    by (auto simp: Delta_passes)
  then show ?thesis
  proof cases
    case d
    then show ?thesis using desiredStep_payload by blast
  next
    case c
    then show ?thesis using currentStep_payload by blast
  qed
qed

lemma Delta_length:
  "length (Delta ToLower desired current ig) \<le> 2 * length desired + length current"
  using desired_pass_length[of ToLower current "toLower ToLower ig" desired] current_pass_length[of desired current]
  by (simp add: Delta_passes)

lemma map_of_applyOp:
  "map_of (applyOp m op) k =
     (if Key (Item op) = k
      then (case Type op of Add \<Rightarrow> Some (Item op) | Remove \<Rightarrow> None)
      else map_of m k)"
  by (simp add: applyOp_def update_conv' delete_conv' split: OperationType.splits)

lemma map_of_applyOps:
  "map_of (applyOps m ops) k =
     foldl (\<lambda>r op. case Type op of Add \<Rightarrow> Some (Item op) | Remove \<Rightarrow> None)
       (map_of m k) (opsFor k ops)"
proof (induction ops arbitrary: m)
  case Nil
  then show ?case by (simp add: applyOps_def opsFor_def)
next
  case (Cons op ops)
  have "map_of (applyOps (applyOp m op) ops) k =
          foldl (\<lambda>r op. case Type op of Add \<Rightarrow> Some (Item op) | Remove \<Rightarrow> None)
            (map_of (applyOp m op) k) (opsFor k ops)"
    by (rule Cons.IH)
  then show ?case
    by (simp add: applyOps_def opsFor_def map_of_applyOp)
qed

lemma wf_map_applyOp: "wf_map m \<Longrightarrow> wf_map (applyOp m op)"
  by (simp add: wf_map_def applyOp_def distinct_update distinct_delete split: OperationType.splits)

lemma wf_map_applyOps: "wf_map m \<Longrightarrow> wf_map (applyOps m ops)"
  unfolding applyOps_def
  by (induction ops arbitrary: m) (simp_all add: wf_map_applyOp)

lemma map_of_applied_Delta:
  assumes "wf_map desired" "keyed desired" "wf_map current" "keyed current"
  shows "map_of (applyOps current (Delta ToLower desired current ig)) k =
    (case map_of desired k of
       None \<Rightarrow> None
     | Some v \<Rightarrow> (case map_of current k of
                  None \<Rightarrow> Some v
                | Some c \<Rightarrow> if vTags ToLower v \<noteq> cTags ToLower (toLower ToLower ig) c then Some v else Some c))"
  by (simp add: map_of_applyOps opsFor_Delta[OF assms] split: option.splits)

lemma keys_applied_Delta:
  assumes "wf_map desired" "keyed desired" "wf_map current" "keyed current"
  shows "fst ` set (applyOps current (Delta ToLower desired current ig)) = fst ` set desired"
proof -
  have "dom (map_of (applyOps current (Delta ToLower desired current ig))) = dom (map_of desired)"
    by (auto simp: map_of_applied_Delta[OF assms] dom_def split: option.splits if_splits)
  then show ?thesis by (simp add: dom_map_of_conv_image_fst)
qed

lemma desired_tag_on_ignore_list:
  assumes "t \<in> set (GetTags v)" "ToLower t \<in> ToLower ` set ig"
  shows "vTags ToLower v \<noteq> cTags ToLower (toLower ToLower ig) c"
proof
  assume "vTags ToLower v = cTags ToLower (toLower ToLower ig) c"
  then have "set (vTags ToLower v) = set (cTags ToLower (toLower ToLower ig) c)" by simp
  moreover from assms(1) have "ToLower t \<in> set (vTags ToLower v)" by (simp add: vTags_list)
  moreover from assms(2) have "ToLower t \<notin> set (cTags ToLower (toLower ToLower ig) c)" by (simp add: cTags_list)
  ultimately show False by simp
qed


lemma opsFor_Delta_norm:
  assumes "wf_map desired" "keyed desired" "wf_map current" "keyed current"
  shows "opsFor k (Delta ToLower desired current ig) =
    (case map_of desired k of
       None \<Rightarrow> (case map_of current k of
                  None \<Rightarrow> []
                | Some c \<Rightarrow> [\<lparr>Item = c, Type = Remove\<rparr>])
     | Some v \<Rightarrow> (case map_of current k of
                  None \<Rightarrow> [\<lparr>Item = v, Type = Add\<rparr>]
                | Some c \<Rightarrow>
                    if desiredNorm ToLower v \<noteq> currentNorm ToLower ig c
                    then [\<lparr>Item = c, Type = Remove\<rparr>, \<lparr>Item = v, Type = Add\<rparr>]
                    else []))"
  by (simp add: opsFor_Delta[OF assms] cTags_list vTags_list split: option.splits)

lemma map_of_applied_Delta_norm:
  assumes "wf_map desired" "keyed desired" "wf_map current" "keyed current"
  shows "map_of (applyOps current (Delta ToLower desired current ig)) k =
    (case map_of desired k of
       None \<Rightarrow> None
     | Some v \<Rightarrow> (case map_of current k of
                  None \<Rightarrow> Some v
                | Some c \<Rightarrow>
                    if desiredNorm ToLower v \<noteq> currentNorm ToLower ig c then Some v else Some c))"
  by (simp add: map_of_applied_Delta[OF assms] cTags_list vTags_list split: option.splits)

lemma currentNorm_of_clean:
  assumes "\<forall>t\<in>set (GetTags v). ToLower t \<notin> ToLower ` set ig"
  shows "currentNorm ToLower ig v = desiredNorm ToLower v"
proof -
  from assms have "filter (\<lambda>s. s \<notin> ToLower ` set ig) (map ToLower (GetTags v)) = map ToLower (GetTags v)"
    by (simp add: filter_id_conv)
  then show ?thesis by simp
qed

lemma desiredNorm_with_ignored:
  assumes "t \<in> set (GetTags v)" "ToLower t \<in> ToLower ` set ig"
  shows "desiredNorm ToLower v \<noteq> currentNorm ToLower ig c"
  using desired_tag_on_ignore_list[OF assms, of c] by (simp add: cTags_list vTags_list)

lemma converges_added:
  assumes "map_of R k = Some v"
  shows "\<exists>e. map_of R k = Some e
            \<and> (e = v \<or> (map_of current k = Some e
                          \<and> currentNorm ToLower ignoreTags e = desiredNorm ToLower v))
            \<and> ((\<forall>t\<in>set (GetTags v). ToLower t \<notin> ToLower ` set ignoreTags)
                 \<longrightarrow> currentNorm ToLower ignoreTags e = desiredNorm ToLower v
                     \<and> set (currentNorm ToLower ignoreTags e) = set (desiredNorm ToLower v))
            \<and> ((\<exists>t\<in>set (GetTags v). ToLower t \<in> ToLower ` set ignoreTags) \<longrightarrow> e = v)"
proof (intro exI[of _ v] conjI impI)
  show "map_of R k = Some v" by (rule assms)
  show "v = v \<or> (map_of current k = Some v
                  \<and> currentNorm ToLower ignoreTags v = desiredNorm ToLower v)"
    by simp
  show "v = v" by simp
next
  assume clean: "\<forall>t\<in>set (GetTags v). ToLower t \<notin> ToLower ` set ignoreTags"
  then show eq: "currentNorm ToLower ignoreTags v = desiredNorm ToLower v"
    by (rule currentNorm_of_clean)
  then show "set (currentNorm ToLower ignoreTags v) = set (desiredNorm ToLower v)"
    by (simp only:)
qed

lemma converges_kept:
  assumes "map_of R k = Some c" "map_of current k = Some c"
    and "desiredNorm ToLower v = currentNorm ToLower ignoreTags c"
  shows "\<exists>e. map_of R k = Some e
            \<and> (e = v \<or> (map_of current k = Some e
                          \<and> currentNorm ToLower ignoreTags e = desiredNorm ToLower v))
            \<and> ((\<forall>t\<in>set (GetTags v). ToLower t \<notin> ToLower ` set ignoreTags)
                 \<longrightarrow> currentNorm ToLower ignoreTags e = desiredNorm ToLower v
                     \<and> set (currentNorm ToLower ignoreTags e) = set (desiredNorm ToLower v))
            \<and> ((\<exists>t\<in>set (GetTags v). ToLower t \<in> ToLower ` set ignoreTags) \<longrightarrow> e = v)"
proof (intro exI[of _ c] conjI impI)
  show "map_of R k = Some c" by (rule assms(1))
  show "c = v \<or> (map_of current k = Some c
                  \<and> currentNorm ToLower ignoreTags c = desiredNorm ToLower v)"
    using assms(2,3) by (simp only: simp_thms)
  show "currentNorm ToLower ignoreTags c = desiredNorm ToLower v"
    using assms(3) by (simp only:)
  show "set (currentNorm ToLower ignoreTags c) = set (desiredNorm ToLower v)"
    using assms(3) by (simp only:)
next
  assume "\<exists>t\<in>set (GetTags v). ToLower t \<in> ToLower ` set ignoreTags"
  then obtain t where "t \<in> set (GetTags v)" "ToLower t \<in> ToLower ` set ignoreTags" ..
  then have "desiredNorm ToLower v \<noteq> currentNorm ToLower ignoreTags c"
    by (rule desiredNorm_with_ignored)
  with assms(3) show "c = v" by (simp only: simp_thms)
qed


section \<open>The properties\<close>


subsection \<open>Convergence\<close>

text \<open>
  Claim C1, as stated, fails when a desired item carries a tag of the ignore list. The
  item below has the label \<open>Assigned\<close> and the ignore list is \<open>assigned\<close>. \<open>Delta\<close>
  removes the task and adds the item, so the result holds the item under the key. Its
  normalized tag set as \<open>Delta\<close> normalizes an entry of \<open>current\<close> (lower-cased, ignore
  list removed) is \<open>{a/b, bug}\<close>; the normalized tag set of the desired item
  (lower-cased) is \<open>{a/b, assigned, bug}\<close>. Run again on its own result, \<open>Delta\<close>
  emits the \<open>Remove\<close> and the \<open>Add\<close> once more.
\<close>

theorem Delta_converges_counterexample:
  "wf_map [(''a/b#1'', KGitHubItem itemIgnored)] \<and> keyed [(''a/b#1'', KGitHubItem itemIgnored)]
   \<and> wf_map [(''a/b#1'', KTask taskAssigned)] \<and> keyed [(''a/b#1'', KTask taskAssigned)]
   \<and> GetTags (KGitHubItem itemIgnored) = [''bug'', ''Assigned'', ''a/b'']
   \<and> GetTags (KTask taskAssigned) = [''bug'', ''Assigned'', ''a/b'']
   \<and> Delta asciiToLower [(''a/b#1'', KGitHubItem itemIgnored)] [(''a/b#1'', KTask taskAssigned)]
        [''assigned'']
       = [\<lparr>Item = KTask taskAssigned, Type = Remove\<rparr>,
          \<lparr>Item = KGitHubItem itemIgnored, Type = Add\<rparr>]
   \<and> applyOps [(''a/b#1'', KTask taskAssigned)]
        (Delta asciiToLower [(''a/b#1'', KGitHubItem itemIgnored)] [(''a/b#1'', KTask taskAssigned)]
           [''assigned''])
       = [(''a/b#1'', KGitHubItem itemIgnored)]
   \<and> set (currentNorm asciiToLower [''assigned''] (KGitHubItem itemIgnored)) = {''a/b'', ''bug''}
   \<and> set (desiredNorm asciiToLower (KGitHubItem itemIgnored)) = {''a/b'', ''assigned'', ''bug''}
   \<and> set (currentNorm asciiToLower [''assigned''] (KGitHubItem itemIgnored))
       \<noteq> set (desiredNorm asciiToLower (KGitHubItem itemIgnored))
   \<and> Delta asciiToLower [(''a/b#1'', KGitHubItem itemIgnored)]
        [(''a/b#1'', KGitHubItem itemIgnored)] [''assigned'']
       = [\<lparr>Item = KGitHubItem itemIgnored, Type = Remove\<rparr>,
          \<lparr>Item = KGitHubItem itemIgnored, Type = Add\<rparr>]"
proof -
  have h: "wf_map [(''a/b#1'', KGitHubItem itemIgnored)]" "keyed [(''a/b#1'', KGitHubItem itemIgnored)]"
    "wf_map [(''a/b#1'', KTask taskAssigned)]" "keyed [(''a/b#1'', KTask taskAssigned)]"
    by code_simp+
  have g: "GetTags (KGitHubItem itemIgnored) = [''bug'', ''Assigned'', ''a/b'']"
    "GetTags (KTask taskAssigned) = [''bug'', ''Assigned'', ''a/b'']"
    by code_simp+
  have d: "Delta asciiToLower [(''a/b#1'', KGitHubItem itemIgnored)] [(''a/b#1'', KTask taskAssigned)]
        [''assigned'']
       = [\<lparr>Item = KTask taskAssigned, Type = Remove\<rparr>,
          \<lparr>Item = KGitHubItem itemIgnored, Type = Add\<rparr>]"
    by code_simp
  have a: "applyOps [(''a/b#1'', KTask taskAssigned)]
        (Delta asciiToLower [(''a/b#1'', KGitHubItem itemIgnored)] [(''a/b#1'', KTask taskAssigned)]
           [''assigned''])
       = [(''a/b#1'', KGitHubItem itemIgnored)]"
    by code_simp
  have c: "currentNorm asciiToLower [''assigned''] (KGitHubItem itemIgnored) = [''a/b'', ''bug'']"
    by code_simp
  have v: "desiredNorm asciiToLower (KGitHubItem itemIgnored) = [''a/b'', ''assigned'', ''bug'']"
    by code_simp
  have sc: "set (currentNorm asciiToLower [''assigned''] (KGitHubItem itemIgnored)) = {''a/b'', ''bug''}"
    unfolding c by simp
  have sv: "set (desiredNorm asciiToLower (KGitHubItem itemIgnored)) = {''a/b'', ''assigned'', ''bug''}"
    unfolding v by simp
  have ne: "set (currentNorm asciiToLower [''assigned''] (KGitHubItem itemIgnored))
       \<noteq> set (desiredNorm asciiToLower (KGitHubItem itemIgnored))"
  proof
    assume "set (currentNorm asciiToLower [''assigned''] (KGitHubItem itemIgnored))
       = set (desiredNorm asciiToLower (KGitHubItem itemIgnored))"
    then have "{''a/b'', ''bug''} = {''a/b'', ''assigned'', ''bug''}"
      by (simp only: sc sv)
    moreover have "''assigned'' \<in> {''a/b'', ''assigned'', ''bug''}" by simp
    ultimately have "''assigned'' \<in> {''a/b'', ''bug''}" by (simp only:)
    then show False by simp
  qed
  have again: "Delta asciiToLower [(''a/b#1'', KGitHubItem itemIgnored)]
        [(''a/b#1'', KGitHubItem itemIgnored)] [''assigned'']
       = [\<lparr>Item = KGitHubItem itemIgnored, Type = Remove\<rparr>,
          \<lparr>Item = KGitHubItem itemIgnored, Type = Add\<rparr>]"
    by code_simp
  show ?thesis by (intro conjI h g d a sc sv ne again)
qed

text \<open>
  Claim C1, amended. Let \<open>desired\<close> and \<open>current\<close> be maps whose entries sit under
  their own keys, and apply the operations of \<open>Delta\<close> to \<open>current\<close> in the order of
  the list. The result is a map with exactly the keys of \<open>desired\<close>. Under a key \<open>k\<close>
  of \<open>desired\<close>, with item \<open>v\<close>, it holds an entry \<open>e\<close> that is either \<open>v\<close>
  itself, put there by an \<open>Add\<close>, or the task \<open>current\<close> had there, whose normalized
  tags (lower-cased, ignore list removed, sorted) are the normalized tags of \<open>v\<close>
  (lower-cased, sorted). When no tag of \<open>v\<close> matches the ignore list, the normalized
  tags of \<open>e\<close> (lower-cased, ignore list removed) equal the normalized tags of \<open>v\<close>
  (lower-cased), as sorted sequences and so as sets. When a tag of \<open>v\<close> matches the
  ignore list, \<open>e\<close> is \<open>v\<close>.
\<close>

theorem Delta_converges:
  assumes "wf_map desired" "keyed desired" "wf_map current" "keyed current"
  shows "wf_map (applyOps current (Delta ToLower desired current ignoreTags))
    \<and> fst ` set (applyOps current (Delta ToLower desired current ignoreTags)) = fst ` set desired
    \<and> (map_of desired k = Some v \<longrightarrow>
         (\<exists>e. map_of (applyOps current (Delta ToLower desired current ignoreTags)) k = Some e
            \<and> (e = v \<or> (map_of current k = Some e
                          \<and> currentNorm ToLower ignoreTags e = desiredNorm ToLower v))
            \<and> ((\<forall>t\<in>set (GetTags v). ToLower t \<notin> ToLower ` set ignoreTags)
                 \<longrightarrow> currentNorm ToLower ignoreTags e = desiredNorm ToLower v
                     \<and> set (currentNorm ToLower ignoreTags e) = set (desiredNorm ToLower v))
            \<and> ((\<exists>t\<in>set (GetTags v). ToLower t \<in> ToLower ` set ignoreTags) \<longrightarrow> e = v)))"
proof (intro conjI impI)
  show "wf_map (applyOps current (Delta ToLower desired current ignoreTags))"
    using assms(3) by (rule wf_map_applyOps)
  show "fst ` set (applyOps current (Delta ToLower desired current ignoreTags)) = fst ` set desired"
    using assms by (rule keys_applied_Delta)
next
  assume dv: "map_of desired k = Some v"
  show "\<exists>e. map_of (applyOps current (Delta ToLower desired current ignoreTags)) k = Some e
            \<and> (e = v \<or> (map_of current k = Some e
                          \<and> currentNorm ToLower ignoreTags e = desiredNorm ToLower v))
            \<and> ((\<forall>t\<in>set (GetTags v). ToLower t \<notin> ToLower ` set ignoreTags)
                 \<longrightarrow> currentNorm ToLower ignoreTags e = desiredNorm ToLower v
                     \<and> set (currentNorm ToLower ignoreTags e) = set (desiredNorm ToLower v))
            \<and> ((\<exists>t\<in>set (GetTags v). ToLower t \<in> ToLower ` set ignoreTags) \<longrightarrow> e = v)"
  proof (cases "map_of current k")
    case None
    with dv have "map_of (applyOps current (Delta ToLower desired current ignoreTags)) k = Some v"
      by (simp add: map_of_applied_Delta_norm[OF assms])
    then show ?thesis by (rule converges_added)
  next
    case (Some c)
    show ?thesis
    proof (cases "desiredNorm ToLower v = currentNorm ToLower ignoreTags c")
      case True
      with dv Some
      have "map_of (applyOps current (Delta ToLower desired current ignoreTags)) k = Some c"
        by (simp add: map_of_applied_Delta_norm[OF assms])
      then show ?thesis using Some True by (rule converges_kept)
    next
      case False
      with dv Some
      have "map_of (applyOps current (Delta ToLower desired current ignoreTags)) k = Some v"
        by (simp add: map_of_applied_Delta_norm[OF assms])
      then show ?thesis by (rule converges_added)
    qed
  qed
qed

theorem Delta_converges_witness:
  "wf_map [(''a/b#1'', KGitHubItem itemA), (''a/b#3'', KGitHubItem itemMilestone)]
   \<and> keyed [(''a/b#1'', KGitHubItem itemA), (''a/b#3'', KGitHubItem itemMilestone)]
   \<and> wf_map [(''a/b#2'', KTask taskB), (''a/b#1'', KTask taskAssigned)]
   \<and> keyed [(''a/b#2'', KTask taskB), (''a/b#1'', KTask taskAssigned)]
   \<and> map_of [(''a/b#1'', KGitHubItem itemA), (''a/b#3'', KGitHubItem itemMilestone)] ''a/b#1''
        = Some (KGitHubItem itemA)
   \<and> GetTags (KGitHubItem itemA) = [''Bug'', ''a/b'']
   \<and> asciiToLower ''Bug'' \<notin> asciiToLower ` set [''assigned'']
   \<and> asciiToLower ''a/b'' \<notin> asciiToLower ` set [''assigned'']
   \<and> applyOps [(''a/b#2'', KTask taskB), (''a/b#1'', KTask taskAssigned)]
        (Delta asciiToLower [(''a/b#1'', KGitHubItem itemA), (''a/b#3'', KGitHubItem itemMilestone)]
           [(''a/b#2'', KTask taskB), (''a/b#1'', KTask taskAssigned)] [''assigned''])
       = [(''a/b#1'', KTask taskAssigned), (''a/b#3'', KGitHubItem itemMilestone)]
   \<and> fst ` set (applyOps [(''a/b#2'', KTask taskB), (''a/b#1'', KTask taskAssigned)]
        (Delta asciiToLower [(''a/b#1'', KGitHubItem itemA), (''a/b#3'', KGitHubItem itemMilestone)]
           [(''a/b#2'', KTask taskB), (''a/b#1'', KTask taskAssigned)] [''assigned'']))
       = fst ` set [(''a/b#1'', KGitHubItem itemA), (''a/b#3'', KGitHubItem itemMilestone)]
   \<and> currentNorm asciiToLower [''assigned''] (KTask taskAssigned)
       = desiredNorm asciiToLower (KGitHubItem itemA)
   \<and> wf_map [(''a/b#1'', KGitHubItem itemIgnored)] \<and> keyed [(''a/b#1'', KGitHubItem itemIgnored)]
   \<and> wf_map [(''a/b#1'', KTask taskAssigned)] \<and> keyed [(''a/b#1'', KTask taskAssigned)]
   \<and> map_of [(''a/b#1'', KGitHubItem itemIgnored)] ''a/b#1'' = Some (KGitHubItem itemIgnored)
   \<and> ''Assigned'' \<in> set (GetTags (KGitHubItem itemIgnored))
   \<and> asciiToLower ''Assigned'' \<in> asciiToLower ` set [''assigned'']
   \<and> map_of (applyOps [(''a/b#1'', KTask taskAssigned)]
        (Delta asciiToLower [(''a/b#1'', KGitHubItem itemIgnored)] [(''a/b#1'', KTask taskAssigned)]
           [''assigned''])) ''a/b#1''
       = Some (KGitHubItem itemIgnored)"
proof -
  have h: "wf_map [(''a/b#1'', KGitHubItem itemA), (''a/b#3'', KGitHubItem itemMilestone)]"
    "keyed [(''a/b#1'', KGitHubItem itemA), (''a/b#3'', KGitHubItem itemMilestone)]"
    "wf_map [(''a/b#2'', KTask taskB), (''a/b#1'', KTask taskAssigned)]"
    "keyed [(''a/b#2'', KTask taskB), (''a/b#1'', KTask taskAssigned)]"
    by code_simp+
  have m: "map_of [(''a/b#1'', KGitHubItem itemA), (''a/b#3'', KGitHubItem itemMilestone)] ''a/b#1''
        = Some (KGitHubItem itemA)"
    by simp
  have g: "GetTags (KGitHubItem itemA) = [''Bug'', ''a/b'']" by code_simp
  have l: "asciiToLower ''Bug'' \<notin> asciiToLower ` set [''assigned'']"
    "asciiToLower ''a/b'' \<notin> asciiToLower ` set [''assigned'']"
    by code_simp+
  have clean: "\<forall>t\<in>set (GetTags (KGitHubItem itemA)).
                 asciiToLower t \<notin> asciiToLower ` set [''assigned'']"
    by code_simp
  have a: "applyOps [(''a/b#2'', KTask taskB), (''a/b#1'', KTask taskAssigned)]
        (Delta asciiToLower [(''a/b#1'', KGitHubItem itemA), (''a/b#3'', KGitHubItem itemMilestone)]
           [(''a/b#2'', KTask taskB), (''a/b#1'', KTask taskAssigned)] [''assigned''])
       = [(''a/b#1'', KTask taskAssigned), (''a/b#3'', KGitHubItem itemMilestone)]"
    by code_simp
  note T = Delta_converges[OF h, where ToLower = asciiToLower and ignoreTags = "[''assigned'']"
      and k = "''a/b#1''" and v = "KGitHubItem itemA"]
  from T have keys: "fst ` set (applyOps [(''a/b#2'', KTask taskB), (''a/b#1'', KTask taskAssigned)]
        (Delta asciiToLower [(''a/b#1'', KGitHubItem itemA), (''a/b#3'', KGitHubItem itemMilestone)]
           [(''a/b#2'', KTask taskB), (''a/b#1'', KTask taskAssigned)] [''assigned'']))
       = fst ` set [(''a/b#1'', KGitHubItem itemA), (''a/b#3'', KGitHubItem itemMilestone)]"
    by (rule conjunct1[OF conjunct2])
  from T[THEN conjunct2, THEN conjunct2, THEN mp, OF m]
  obtain e where e: "map_of (applyOps [(''a/b#2'', KTask taskB), (''a/b#1'', KTask taskAssigned)]
        (Delta asciiToLower [(''a/b#1'', KGitHubItem itemA), (''a/b#3'', KGitHubItem itemMilestone)]
           [(''a/b#2'', KTask taskB), (''a/b#1'', KTask taskAssigned)] [''assigned''])) ''a/b#1'' = Some e"
    and c: "(\<forall>t\<in>set (GetTags (KGitHubItem itemA)).
                 asciiToLower t \<notin> asciiToLower ` set [''assigned''])
            \<longrightarrow> currentNorm asciiToLower [''assigned''] e = desiredNorm asciiToLower (KGitHubItem itemA)
               \<and> set (currentNorm asciiToLower [''assigned''] e)
                   = set (desiredNorm asciiToLower (KGitHubItem itemA))"
    by (elim exE conjE)
  from e have "e = KTask taskAssigned" by (simp only: a) simp
  with c clean have n: "currentNorm asciiToLower [''assigned''] (KTask taskAssigned)
       = desiredNorm asciiToLower (KGitHubItem itemA)"
    by (simp only: simp_thms)
  have h': "wf_map [(''a/b#1'', KGitHubItem itemIgnored)]" "keyed [(''a/b#1'', KGitHubItem itemIgnored)]"
    "wf_map [(''a/b#1'', KTask taskAssigned)]" "keyed [(''a/b#1'', KTask taskAssigned)]"
    by code_simp+
  have m': "map_of [(''a/b#1'', KGitHubItem itemIgnored)] ''a/b#1'' = Some (KGitHubItem itemIgnored)"
    by simp
  have i: "''Assigned'' \<in> set (GetTags (KGitHubItem itemIgnored))"
    "asciiToLower ''Assigned'' \<in> asciiToLower ` set [''assigned'']"
    by code_simp+
  have ex: "\<exists>t\<in>set (GetTags (KGitHubItem itemIgnored)).
                 asciiToLower t \<in> asciiToLower ` set [''assigned'']"
    by code_simp
  from Delta_converges[OF h', where ToLower = asciiToLower and ignoreTags = "[''assigned'']"
      and k = "''a/b#1''" and v = "KGitHubItem itemIgnored",
      THEN conjunct2, THEN conjunct2, THEN mp, OF m']
  obtain e' where e': "map_of (applyOps [(''a/b#1'', KTask taskAssigned)]
        (Delta asciiToLower [(''a/b#1'', KGitHubItem itemIgnored)] [(''a/b#1'', KTask taskAssigned)]
           [''assigned''])) ''a/b#1'' = Some e'"
    and c': "(\<exists>t\<in>set (GetTags (KGitHubItem itemIgnored)).
                 asciiToLower t \<in> asciiToLower ` set [''assigned''])
            \<longrightarrow> e' = KGitHubItem itemIgnored"
    by (elim exE conjE)
  from c' ex have "e' = KGitHubItem itemIgnored" by (rule mp)
  with e' have r: "map_of (applyOps [(''a/b#1'', KTask taskAssigned)]
        (Delta asciiToLower [(''a/b#1'', KGitHubItem itemIgnored)] [(''a/b#1'', KTask taskAssigned)]
           [''assigned''])) ''a/b#1''
       = Some (KGitHubItem itemIgnored)"
    by (simp only:)
  show ?thesis by (intro conjI h m g l a keys n h' m' i r)
qed


subsection \<open>No spurious operations\<close>

text \<open>
  Claim C2, as stated, compares tag sets. \<open>Delta\<close> compares sorted sequences, in which
  a tag counts as often as it occurs. The item below carries the labels \<open>bug\<close> and
  \<open>Bug\<close>, the task the tag \<open>bug\<close> once: the key sets are the same and both sets of
  normalized tags are \<open>{a/b, bug}\<close>, yet \<open>Delta\<close> returns a \<open>Remove\<close> and an
  \<open>Add\<close>.
\<close>

theorem Delta_equal_tag_sets_counterexample:
  "wf_map [(''a/b#1'', KGitHubItem itemTwice)] \<and> keyed [(''a/b#1'', KGitHubItem itemTwice)]
   \<and> wf_map [(''a/b#1'', KTask taskA)] \<and> keyed [(''a/b#1'', KTask taskA)]
   \<and> map fst [(''a/b#1'', KGitHubItem itemTwice)] = map fst [(''a/b#1'', KTask taskA)]
   \<and> GetTags (KGitHubItem itemTwice) = [''bug'', ''Bug'', ''a/b'']
   \<and> GetTags (KTask taskA) = [''bug'', ''a/b'']
   \<and> set (desiredNorm asciiToLower (KGitHubItem itemTwice)) = {''a/b'', ''bug''}
   \<and> set (currentNorm asciiToLower [] (KTask taskA)) = {''a/b'', ''bug''}
   \<and> Delta asciiToLower [(''a/b#1'', KGitHubItem itemTwice)] [(''a/b#1'', KTask taskA)] []
       = [\<lparr>Item = KTask taskA, Type = Remove\<rparr>, \<lparr>Item = KGitHubItem itemTwice, Type = Add\<rparr>]"
proof -
  have h: "wf_map [(''a/b#1'', KGitHubItem itemTwice)]" "keyed [(''a/b#1'', KGitHubItem itemTwice)]"
    "wf_map [(''a/b#1'', KTask taskA)]" "keyed [(''a/b#1'', KTask taskA)]"
    by code_simp+
  have g: "GetTags (KGitHubItem itemTwice) = [''bug'', ''Bug'', ''a/b'']"
    "GetTags (KTask taskA) = [''bug'', ''a/b'']"
    by code_simp+
  have v: "desiredNorm asciiToLower (KGitHubItem itemTwice) = [''a/b'', ''bug'', ''bug'']"
    by code_simp
  have c: "currentNorm asciiToLower [] (KTask taskA) = [''a/b'', ''bug'']" by code_simp
  have d: "Delta asciiToLower [(''a/b#1'', KGitHubItem itemTwice)] [(''a/b#1'', KTask taskA)] []
       = [\<lparr>Item = KTask taskA, Type = Remove\<rparr>, \<lparr>Item = KGitHubItem itemTwice, Type = Add\<rparr>]"
    by code_simp
  have k: "map fst [(''a/b#1'', KGitHubItem itemTwice)] = map fst [(''a/b#1'', KTask taskA)]"
    by simp
  have sv: "set (desiredNorm asciiToLower (KGitHubItem itemTwice)) = {''a/b'', ''bug''}"
    unfolding v by simp
  have sc: "set (currentNorm asciiToLower [] (KTask taskA)) = {''a/b'', ''bug''}"
    unfolding c by simp
  show ?thesis by (intro conjI h k g sv sc d)
qed

text \<open>
  Claim C2, amended. When \<open>desired\<close> and \<open>current\<close> have the same keys and, for every
  key, the sorted sequence of the lower-cased desired tags equals the sorted sequence of
  the lower-cased current tags without those of the ignore list (the sequences keep
  repeated tags), \<open>Delta\<close> returns the empty list. This holds for every lower-casing
  function: tags are only ever compared after it, so two tags it maps to the same
  string count as equal. The witness has the desired label \<open>Bug\<close> against the current
  tag \<open>bug\<close>, and the current tag \<open>Assigned\<close> on the ignore list as \<open>assigned\<close>.
\<close>

theorem Delta_no_spurious_ops:
  assumes "wf_map desired"
    and "fst ` set desired = fst ` set current"
    and "\<forall>k v c. map_of desired k = Some v \<and> map_of current k = Some c
           \<longrightarrow> desiredNorm ToLower v = currentNorm ToLower ignoreTags c"
  shows "Delta ToLower desired current ignoreTags = []"
proof -
  have d: "desiredStep ToLower current (toLower ToLower ignoreTags) [] kv = []"
    if "kv \<in> set desired" for kv
  proof -
    obtain k v where kv: "kv = (k, v)" by (cases kv)
    from that have "(k, v) \<in> set desired" by (simp add: kv)
    with assms(1) have dv: "map_of desired k = Some v" by (rule wf_map_lookup)
    from that have "fst kv \<in> fst ` set desired" by (rule imageI)
    then have "k \<in> fst ` set desired" by (simp add: kv)
    with assms(2) have "k \<in> fst ` set current" by simp
    then have "\<exists>c. map_of current k = Some c" by (rule map_of_in_keys)
    then obtain c where cv: "map_of current k = Some c" ..
    from assms(3) dv cv have "desiredNorm ToLower v = currentNorm ToLower ignoreTags c"
      by blast
    with cv show ?thesis
      by (simp add: kv desiredStep_def Compare_eq_0_iff cTags_list vTags_list)
  qed
  have c: "currentStep desired [] kv = []" if "kv \<in> set current" for kv
  proof -
    obtain k c where kv: "kv = (k, c)" by (cases kv)
    from that have "fst kv \<in> fst ` set current" by (rule imageI)
    then have "k \<in> fst ` set current" by (simp add: kv)
    with assms(2) have "k \<in> fst ` set desired" by simp
    then have "\<exists>v. map_of desired k = Some v" by (rule map_of_in_keys)
    then obtain v where "map_of desired k = Some v" ..
    then show ?thesis by (simp add: kv currentStep_def)
  qed
  have "concat (map (desiredStep ToLower current (toLower ToLower ignoreTags) []) desired) = []"
    by (rule concat_map_Nil) (rule d)
  moreover have "concat (map (currentStep desired []) current) = []"
    by (rule concat_map_Nil) (rule c)
  ultimately show ?thesis
    by (simp add: Delta_passes)
qed

theorem Delta_no_spurious_ops_witness:
  "wf_map [(''a/b#1'', KGitHubItem itemA)]
   \<and> fst ` set [(''a/b#1'', KGitHubItem itemA)] = fst ` set [(''a/b#1'', KTask taskAssigned)]
   \<and> GetTags (KGitHubItem itemA) = [''Bug'', ''a/b'']
   \<and> GetTags (KTask taskAssigned) = [''bug'', ''Assigned'', ''a/b'']
   \<and> desiredNorm asciiToLower (KGitHubItem itemA) = [''a/b'', ''bug'']
   \<and> currentNorm asciiToLower [''assigned''] (KTask taskAssigned) = [''a/b'', ''bug'']
   \<and> Delta asciiToLower [(''a/b#1'', KGitHubItem itemA)] [(''a/b#1'', KTask taskAssigned)]
        [''assigned''] = []"
proof -
  have w: "wf_map [(''a/b#1'', KGitHubItem itemA)]" by code_simp
  have k: "fst ` set [(''a/b#1'', KGitHubItem itemA)] = fst ` set [(''a/b#1'', KTask taskAssigned)]"
    by simp
  have g: "GetTags (KGitHubItem itemA) = [''Bug'', ''a/b'']"
    "GetTags (KTask taskAssigned) = [''bug'', ''Assigned'', ''a/b'']"
    by code_simp+
  have n: "desiredNorm asciiToLower (KGitHubItem itemA) = [''a/b'', ''bug'']"
    "currentNorm asciiToLower [''assigned''] (KTask taskAssigned) = [''a/b'', ''bug'']"
    by code_simp+
  have a: "\<forall>k v c. map_of [(''a/b#1'', KGitHubItem itemA)] k = Some v
             \<and> map_of [(''a/b#1'', KTask taskAssigned)] k = Some c
           \<longrightarrow> desiredNorm asciiToLower v = currentNorm asciiToLower [''assigned''] c"
  proof (intro allI impI)
    fix k v c
    assume "map_of [(''a/b#1'', KGitHubItem itemA)] k = Some v
             \<and> map_of [(''a/b#1'', KTask taskAssigned)] k = Some c"
    then have "v = KGitHubItem itemA" "c = KTask taskAssigned"
      by (simp_all split: if_splits)
    then show "desiredNorm asciiToLower v = currentNorm asciiToLower [''assigned''] c"
      by (simp only: n)
  qed
  from Delta_no_spurious_ops[OF w k a]
  have r: "Delta asciiToLower [(''a/b#1'', KGitHubItem itemA)] [(''a/b#1'', KTask taskAssigned)]
        [''assigned''] = []" .
  show ?thesis by (intro conjI w k g n r)
qed


subsection \<open>A key with changed tags\<close>

text \<open>
  Claim C3. For a key held by both maps, the operations of \<open>Delta\<close> for that key
  are the \<open>Remove\<close> of the current task followed by the \<open>Add\<close> of the desired item
  when the normalized sorted tag sequences differ, and none when they are equal. The
  sequences are those of the specification: the desired tags lower-cased and sorted,
  and the current tags lower-cased, cleared of the ignore list and sorted. The maps are
  Go maps whose entries sit under their own keys, as \<open>toSet\<close> builds them; the
  statement holds for every order in which the maps are ranged over. The witness has a
  task whose tags are out of order, one of them on the ignore list.
\<close>

theorem Delta_tag_changed:
  assumes "wf_map desired" "keyed desired" "wf_map current" "keyed current"
    and "map_of desired k = Some v" "map_of current k = Some c"
  shows "opsFor k (Delta ToLower desired current ignoreTags) =
           (if desiredNorm ToLower v \<noteq> currentNorm ToLower ignoreTags c
            then [\<lparr>Item = c, Type = Remove\<rparr>, \<lparr>Item = v, Type = Add\<rparr>]
            else [])"
  using assms(5,6) by (simp add: opsFor_Delta_norm[OF assms(1-4)])

theorem Delta_tag_changed_witness:
  "wf_map [(''a/b#1'', KGitHubItem itemUrgent)] \<and> keyed [(''a/b#1'', KGitHubItem itemUrgent)]
   \<and> wf_map [(''a/b#1'', KTask taskAssigned)] \<and> keyed [(''a/b#1'', KTask taskAssigned)]
   \<and> map_of [(''a/b#1'', KGitHubItem itemUrgent)] ''a/b#1'' = Some (KGitHubItem itemUrgent)
   \<and> map_of [(''a/b#1'', KTask taskAssigned)] ''a/b#1'' = Some (KTask taskAssigned)
   \<and> GetTags (KTask taskAssigned) = [''bug'', ''Assigned'', ''a/b'']
   \<and> currentNorm asciiToLower [''assigned''] (KTask taskAssigned) = [''a/b'', ''bug'']
   \<and> desiredNorm asciiToLower (KGitHubItem itemUrgent) = [''a/b'', ''urgent'']
   \<and> opsFor ''a/b#1''
        (Delta asciiToLower [(''a/b#1'', KGitHubItem itemUrgent)] [(''a/b#1'', KTask taskAssigned)]
           [''assigned''])
       = [\<lparr>Item = KTask taskAssigned, Type = Remove\<rparr>, \<lparr>Item = KGitHubItem itemUrgent, Type = Add\<rparr>]
   \<and> wf_map [(''a/b#1'', KGitHubItem itemA)] \<and> keyed [(''a/b#1'', KGitHubItem itemA)]
   \<and> map_of [(''a/b#1'', KGitHubItem itemA)] ''a/b#1'' = Some (KGitHubItem itemA)
   \<and> GetTags (KGitHubItem itemA) = [''Bug'', ''a/b'']
   \<and> desiredNorm asciiToLower (KGitHubItem itemA) = [''a/b'', ''bug'']
   \<and> opsFor ''a/b#1''
        (Delta asciiToLower [(''a/b#1'', KGitHubItem itemA)] [(''a/b#1'', KTask taskAssigned)]
           [''assigned''])
       = []"
proof -
  have wd: "wf_map [(''a/b#1'', KGitHubItem itemUrgent)]" by code_simp
  have kd: "keyed [(''a/b#1'', KGitHubItem itemUrgent)]" by code_simp
  have wd': "wf_map [(''a/b#1'', KGitHubItem itemA)]" by code_simp
  have kd': "keyed [(''a/b#1'', KGitHubItem itemA)]" by code_simp
  have wc: "wf_map [(''a/b#1'', KTask taskAssigned)]" by code_simp
  have kc: "keyed [(''a/b#1'', KTask taskAssigned)]" by code_simp
  have md: "map_of [(''a/b#1'', KGitHubItem itemUrgent)] ''a/b#1'' = Some (KGitHubItem itemUrgent)"
    by simp
  have md': "map_of [(''a/b#1'', KGitHubItem itemA)] ''a/b#1'' = Some (KGitHubItem itemA)"
    by simp
  have mc: "map_of [(''a/b#1'', KTask taskAssigned)] ''a/b#1'' = Some (KTask taskAssigned)"
    by simp
  have g: "GetTags (KTask taskAssigned) = [''bug'', ''Assigned'', ''a/b'']"
    "GetTags (KGitHubItem itemA) = [''Bug'', ''a/b'']"
    by code_simp+
  have n: "currentNorm asciiToLower [''assigned''] (KTask taskAssigned) = [''a/b'', ''bug'']"
    "desiredNorm asciiToLower (KGitHubItem itemUrgent) = [''a/b'', ''urgent'']"
    "desiredNorm asciiToLower (KGitHubItem itemA) = [''a/b'', ''bug'']"
    by code_simp+
  from Delta_tag_changed[OF wd kd wc kc md mc, of asciiToLower "[''assigned'']"]
  have r: "opsFor ''a/b#1''
        (Delta asciiToLower [(''a/b#1'', KGitHubItem itemUrgent)] [(''a/b#1'', KTask taskAssigned)]
           [''assigned''])
       = [\<lparr>Item = KTask taskAssigned, Type = Remove\<rparr>, \<lparr>Item = KGitHubItem itemUrgent, Type = Add\<rparr>]"
    by (simp only: n) simp
  from Delta_tag_changed[OF wd' kd' wc kc md' mc, of asciiToLower "[''assigned'']"]
  have r': "opsFor ''a/b#1''
        (Delta asciiToLower [(''a/b#1'', KGitHubItem itemA)] [(''a/b#1'', KTask taskAssigned)]
           [''assigned''])
       = []"
    by (simp only: n) simp
  show ?thesis by (intro conjI wd kd wc kc md mc g n r wd' kd' md' r')
qed


subsection \<open>The ignore list\<close>




subsection \<open>A key missing in current\<close>

text \<open>
  Claim C5. For a key that \<open>desired\<close> holds and \<open>current\<close> does not, the operations
  of \<open>Delta\<close> for that key are exactly one \<open>Add\<close>, carrying the desired item. When
  \<open>current\<close> is empty, the whole result is one \<open>Add\<close> per entry of \<open>desired\<close>, in
  the order the map is ranged over.
\<close>

theorem Delta_missing_in_current:
  "(wf_map desired \<and> keyed desired \<and> wf_map current \<and> keyed current
      \<and> map_of desired k = Some v \<and> map_of current k = None
     \<longrightarrow> opsFor k (Delta ToLower desired current ignoreTags) = [\<lparr>Item = v, Type = Add\<rparr>])
   \<and> Delta ToLower desired [] ignoreTags = map (\<lambda>kv. \<lparr>Item = snd kv, Type = Add\<rparr>) desired"
proof (intro conjI impI)
  assume a: "wf_map desired \<and> keyed desired \<and> wf_map current \<and> keyed current
      \<and> map_of desired k = Some v \<and> map_of current k = None"
  then have "wf_map desired" "keyed desired" "wf_map current" "keyed current" by simp_all
  from opsFor_Delta[OF this, of k ToLower ignoreTags] a
  show "opsFor k (Delta ToLower desired current ignoreTags) = [\<lparr>Item = v, Type = Add\<rparr>]" by simp
next
  show "Delta ToLower desired [] ignoreTags = map (\<lambda>kv. \<lparr>Item = snd kv, Type = Add\<rparr>) desired"
    by (simp add: Delta_passes desired_pass_empty_current)
qed

theorem Delta_missing_in_current_witness:
  "wf_map [(''a/b#3'', KGitHubItem itemMilestone), (''a/b#1'', KGitHubItem itemA)]
   \<and> keyed [(''a/b#3'', KGitHubItem itemMilestone), (''a/b#1'', KGitHubItem itemA)]
   \<and> wf_map [(''a/b#1'', KTask taskA)] \<and> keyed [(''a/b#1'', KTask taskA)]
   \<and> map_of [(''a/b#3'', KGitHubItem itemMilestone), (''a/b#1'', KGitHubItem itemA)] ''a/b#3''
        = Some (KGitHubItem itemMilestone)
   \<and> map_of [(''a/b#1'', KTask taskA)] ''a/b#3'' = None
   \<and> opsFor ''a/b#3''
        (Delta asciiToLower [(''a/b#3'', KGitHubItem itemMilestone), (''a/b#1'', KGitHubItem itemA)]
           [(''a/b#1'', KTask taskA)] [])
        = [\<lparr>Item = KGitHubItem itemMilestone, Type = Add\<rparr>]
   \<and> Delta asciiToLower [(''a/b#1'', KGitHubItem itemA)] [] [] = [\<lparr>Item = KGitHubItem itemA, Type = Add\<rparr>]"
proof -
  have h: "wf_map [(''a/b#3'', KGitHubItem itemMilestone), (''a/b#1'', KGitHubItem itemA)]"
    "keyed [(''a/b#3'', KGitHubItem itemMilestone), (''a/b#1'', KGitHubItem itemA)]"
    "wf_map [(''a/b#1'', KTask taskA)]" "keyed [(''a/b#1'', KTask taskA)]"
    by code_simp+
  have m: "map_of [(''a/b#3'', KGitHubItem itemMilestone), (''a/b#1'', KGitHubItem itemA)] ''a/b#3''
        = Some (KGitHubItem itemMilestone)"
    "map_of [(''a/b#1'', KTask taskA)] ''a/b#3'' = None"
    by simp_all
  from h m
    Delta_missing_in_current[of "[(''a/b#3'', KGitHubItem itemMilestone), (''a/b#1'', KGitHubItem itemA)]"
      "[(''a/b#1'', KTask taskA)]" "''a/b#3''" "KGitHubItem itemMilestone" asciiToLower "[]"]
    Delta_missing_in_current[of "[(''a/b#1'', KGitHubItem itemA)]" "[]" "''a/b#1''" "KGitHubItem itemA" asciiToLower "[]"]
  show ?thesis by simp
qed


subsection \<open>A key missing in desired\<close>

text \<open>
  Claim C6. For a key that \<open>current\<close> holds and \<open>desired\<close> does not, the operations
  of \<open>Delta\<close> for that key are exactly one \<open>Remove\<close>, carrying the current task. When
  \<open>desired\<close> is empty, the whole result is one \<open>Remove\<close> per entry of
  \<open>current\<close>, in the order the map is ranged over.
\<close>

theorem Delta_extra_in_current:
  "(wf_map desired \<and> keyed desired \<and> wf_map current \<and> keyed current
      \<and> map_of current k = Some c \<and> map_of desired k = None
     \<longrightarrow> opsFor k (Delta ToLower desired current ignoreTags) = [\<lparr>Item = c, Type = Remove\<rparr>])
   \<and> Delta ToLower [] current ignoreTags = map (\<lambda>kv. \<lparr>Item = snd kv, Type = Remove\<rparr>) current"
proof (intro conjI impI)
  assume a: "wf_map desired \<and> keyed desired \<and> wf_map current \<and> keyed current
      \<and> map_of current k = Some c \<and> map_of desired k = None"
  then have "wf_map desired" "keyed desired" "wf_map current" "keyed current" by simp_all
  from opsFor_Delta[OF this, of k ToLower ignoreTags] a
  show "opsFor k (Delta ToLower desired current ignoreTags) = [\<lparr>Item = c, Type = Remove\<rparr>]" by simp
next
  show "Delta ToLower [] current ignoreTags = map (\<lambda>kv. \<lparr>Item = snd kv, Type = Remove\<rparr>) current"
    by (simp add: Delta_passes current_pass_empty_desired)
qed

theorem Delta_extra_in_current_witness:
  "wf_map [(''a/b#1'', KGitHubItem itemA)] \<and> keyed [(''a/b#1'', KGitHubItem itemA)]
   \<and> wf_map [(''a/b#2'', KTask taskB), (''a/b#1'', KTask taskA)]
   \<and> keyed [(''a/b#2'', KTask taskB), (''a/b#1'', KTask taskA)]
   \<and> map_of [(''a/b#2'', KTask taskB), (''a/b#1'', KTask taskA)] ''a/b#2'' = Some (KTask taskB)
   \<and> map_of [(''a/b#1'', KGitHubItem itemA)] ''a/b#2'' = None
   \<and> opsFor ''a/b#2''
        (Delta asciiToLower [(''a/b#1'', KGitHubItem itemA)]
           [(''a/b#2'', KTask taskB), (''a/b#1'', KTask taskA)] [])
        = [\<lparr>Item = KTask taskB, Type = Remove\<rparr>]
   \<and> Delta asciiToLower [] [(''a/b#2'', KTask taskB)] [] = [\<lparr>Item = KTask taskB, Type = Remove\<rparr>]"
proof -
  have h: "wf_map [(''a/b#1'', KGitHubItem itemA)]" "keyed [(''a/b#1'', KGitHubItem itemA)]"
    "wf_map [(''a/b#2'', KTask taskB), (''a/b#1'', KTask taskA)]"
    "keyed [(''a/b#2'', KTask taskB), (''a/b#1'', KTask taskA)]"
    by code_simp+
  have m: "map_of [(''a/b#2'', KTask taskB), (''a/b#1'', KTask taskA)] ''a/b#2'' = Some (KTask taskB)"
    "map_of [(''a/b#1'', KGitHubItem itemA)] ''a/b#2'' = None"
    by simp_all
  from h m
    Delta_extra_in_current[of "[(''a/b#1'', KGitHubItem itemA)]"
      "[(''a/b#2'', KTask taskB), (''a/b#1'', KTask taskA)]" "''a/b#2''" "KTask taskB" asciiToLower "[]"]
    Delta_extra_in_current[of "[]" "[(''a/b#2'', KTask taskB)]" "''a/b#2''" "KTask taskB" asciiToLower "[]"]
  show ?thesis by simp
qed


subsection \<open>Totality\<close>

text \<open>
  Claim C7. \<open>Delta\<close> is defined on every pair of maps and every ignore list: the model
  has no error result because the code has no failing step (no index, no lookup without
  its \<open>ok\<close> test), and each of its loops runs once over a finite map or slice. The
  result holds at most two operations per desired entry and one per current entry, every
  \<open>Add\<close> carries an element of \<open>desired\<close> and every \<open>Remove\<close> an element of
  \<open>current\<close>, and two empty maps give the empty list. The witness runs \<open>Delta\<close> on
  maps built from sequences with repeated keys, one of them of tasks without tags.
\<close>

theorem Delta_total:
  "(\<exists>ops. Delta ToLower desired current ignoreTags = ops
      \<and> length ops \<le> 2 * length desired + length current
      \<and> (\<forall>op\<in>set ops. (Type op = Add \<and> Item op \<in> snd ` set desired)
                      \<or> (Type op = Remove \<and> Item op \<in> snd ` set current)))
   \<and> Delta ToLower [] [] ignoreTags = []"
  using Delta_length Delta_payload by (auto simp: Delta_passes)

theorem Delta_total_witness:
  "Delta asciiToLower (toSet [KGitHubItem itemA, KGitHubItem itemUrgent]) (toSet [KTask taskB, KTask taskB]) []
     = [\<lparr>Item = KGitHubItem itemUrgent, Type = Add\<rparr>, \<lparr>Item = KTask taskB, Type = Remove\<rparr>]
   \<and> length (Delta asciiToLower (toSet [KGitHubItem itemA, KGitHubItem itemUrgent])
        (toSet [KTask taskB, KTask taskB]) [])
       \<le> 2 * length (toSet [KGitHubItem itemA, KGitHubItem itemUrgent])
           + length (toSet [KTask taskB, KTask taskB])
   \<and> Delta asciiToLower [] [] [''assigned''] = []"
proof -
  have d: "Delta asciiToLower (toSet [KGitHubItem itemA, KGitHubItem itemUrgent]) (toSet [KTask taskB, KTask taskB]) []
     = [\<lparr>Item = KGitHubItem itemUrgent, Type = Add\<rparr>, \<lparr>Item = KTask taskB, Type = Remove\<rparr>]"
    by code_simp
  from d Delta_total[of asciiToLower "toSet [KGitHubItem itemA, KGitHubItem itemUrgent]"
      "toSet [KTask taskB, KTask taskB]" "[]"]
    Delta_total[of asciiToLower "[]" "[]" "[''assigned'']"]
  show ?thesis by simp
qed


subsection \<open>The builder\<close>

text \<open>
  Claim C8. \<open>toSet\<close> returns a map: its keys are pairwise different and are exactly
  the keys of the elements, so it has one entry per distinct key; each entry sits under
  the key of its element; the entry of a key is the last element of the sequence with
  that key; the empty sequence gives the empty map; and a non-empty sequence whose
  elements all have the key \<open>k\<close> gives the single entry of its last element.
\<close>

theorem toSet_builds_keyed_collection:
  "wf_map (toSet l)
   \<and> keyed (toSet l)
   \<and> fst ` set (toSet l) = Key ` set l
   \<and> length (toSet l) = card (Key ` set l)
   \<and> map_of (toSet l) k = find (\<lambda>e. Key e = k) (rev l)
   \<and> toSet [] = []
   \<and> (l \<noteq> [] \<and> (\<forall>e\<in>set l. Key e = k) \<longrightarrow> toSet l = [(k, last l)])"
  using toSet_wf toSet_keyed toSet_keys toSet_length toSet_map_of toSet_one_key
  by (auto simp: toSet_def)

theorem toSet_builds_keyed_collection_witness:
  "[KTask taskA, KTask taskAgain] \<noteq> []
   \<and> Key (KTask taskA) = ''a/b#1'' \<and> Key (KTask taskAgain) = ''a/b#1''
   \<and> toSet [KTask taskA, KTask taskAgain] = [(''a/b#1'', KTask taskAgain)]
   \<and> map_of (toSet [KTask taskA, KTask taskAgain]) ''a/b#1'' = Some (KTask taskAgain)"
proof -
  have h: "Key (KTask taskA) = ''a/b#1''" "Key (KTask taskAgain) = ''a/b#1''"
    by code_simp+
  have f: "find (\<lambda>e. Key e = ''a/b#1'') (rev [KTask taskA, KTask taskAgain]) = Some (KTask taskAgain)"
    by code_simp
  from h f toSet_builds_keyed_collection[of "[KTask taskA, KTask taskAgain]" "''a/b#1''"]
  show ?thesis by simp
qed


subsection \<open>The key of a task\<close>

text \<open>
  Claim C9. The key of a task is the part of its name before the first space. A name
  without a space is its own key, and a name that starts with a key \<open>k\<close> free of spaces,
  followed by a space, has the key \<open>k\<close>. The witness runs the repository's test
  \<open>TestTaskKey\<close> and a name without a space.
\<close>

theorem Task_Key_leading_token:
  "Task_Key t = takeWhile (\<lambda>c. c \<noteq> CHR '' '') (Name t)
   \<and> (CHR '' '' \<notin> set (Name t) \<longrightarrow> Task_Key t = Name t)
   \<and> (Name t = k @ '' '' @ rest \<and> CHR '' '' \<notin> set k \<longrightarrow> Task_Key t = k)"
  by (auto simp: Task_Key_takeWhile takeWhile_neq_id takeWhile_tail)

theorem Task_Key_leading_token_witness:
  "(Name testTask = ''rhyshort/github-to-omnifocus#3'' @ '' '' @ ''foo bar foo''
      \<and> CHR '' '' \<notin> set ''rhyshort/github-to-omnifocus#3'')
   \<and> Task_Key testTask = ''rhyshort/github-to-omnifocus#3''
   \<and> CHR '' '' \<notin> set (Name bareTask)
   \<and> Task_Key bareTask = ''inbox''"
proof -
  have h1: "Name testTask = ''rhyshort/github-to-omnifocus#3'' @ '' '' @ ''foo bar foo''
      \<and> CHR '' '' \<notin> set ''rhyshort/github-to-omnifocus#3''"
    by (simp add: testTask_def)
  have h2: "CHR '' '' \<notin> set (Name bareTask)"
    by (simp add: bareTask_def)
  have n2: "Name bareTask = ''inbox''"
    by (simp add: bareTask_def)
  from h1 h2 n2
    Task_Key_leading_token[of testTask "''rhyshort/github-to-omnifocus#3''" "''foo bar foo''"]
    Task_Key_leading_token[of bareTask "[]" "[]"]
  show ?thesis by metis
qed


subsection \<open>The tags of a GitHub item\<close>

text \<open>
  Claim C10. The tags of a GitHub item are its labels, in their order and as they are
  spelled, then the repository, then the tag \<open>milestone: m\<close> exactly when the milestone
  \<open>m\<close> is not empty. Nothing is lower-cased and nothing is dropped here: the sequence
  that \<open>Delta\<close> compares for a desired item is the sorted list of all these tags,
  lower-cased, every repetition kept.
\<close>

theorem GitHubItem_GetTags_shape:
  "GitHubItem_GetTags item =
     Labels item @ [Repo item] @
       (if Milestone item = '''' then [] else [''milestone: '' @ Milestone item])
   \<and> GetTags (KGitHubItem item) = GitHubItem_GetTags item
   \<and> vTags ToLower (KGitHubItem item) = sort (map ToLower (GitHubItem_GetTags item))"
  by (simp add: GitHubItem_GetTags_def vTags_def Sorted_def lower_map)

theorem GitHubItem_GetTags_shape_witness:
  "GitHubItem_GetTags itemMilestone = [''Bug'', ''bug'', ''bug'', ''a/b'', ''milestone: v1'']
   \<and> vTags asciiToLower (KGitHubItem itemMilestone) = [''a/b'', ''bug'', ''bug'', ''bug'', ''milestone: v1'']
   \<and> GitHubItem_GetTags itemTwice = [''bug'', ''Bug'', ''a/b'']"
proof -
  have m: "Milestone itemMilestone = ''v1''" "Labels itemMilestone = [''Bug'', ''bug'', ''bug'']"
    "Repo itemMilestone = ''a/b''"
    by (simp_all add: itemMilestone_def)
  have t: "Milestone itemTwice = ''''" "Labels itemTwice = [''bug'', ''Bug'']"
    "Repo itemTwice = ''a/b''"
    by (simp_all add: itemTwice_def)
  have s: "sort (map asciiToLower [''Bug'', ''bug'', ''bug'', ''a/b'', ''milestone: v1''])
             = [''a/b'', ''bug'', ''bug'', ''bug'', ''milestone: v1'']"
    by code_simp
  from GitHubItem_GetTags_shape[of itemMilestone asciiToLower] GitHubItem_GetTags_shape[of itemTwice asciiToLower] s
  show ?thesis by (simp add: m t)
qed

end
